theory Spec2Isabelle
  imports Main
begin

section \<open>The Qt 5 containers underneath OrderedQMap.h\<close>

text \<open>
  \<^verbatim>\<open>OrderedQMap<Key,T>\<close> derives from \<^verbatim>\<open>QMap<Key,T>\<close> and (privately) from
  \<^verbatim>\<open>QList<Key>\<close>; \<^verbatim>\<open>OrderedQMultiMap<Key,T>\<close> derives from \<^verbatim>\<open>QMultiMap<Key,T>\<close> and
  \<^verbatim>\<open>QList<Key>\<close>. The header is Qt 5 code: it indexes with \<^verbatim>\<open>int\<close>, calls
  \<^verbatim>\<open>QMap<Key,T>::operator[]\<close> and \<^verbatim>\<open>QMap<Key,T>::count\<close> on a \<^verbatim>\<open>QMultiMap\<close> and stores
  the result of \<^verbatim>\<open>QMultiMap::insert\<close> in a \<^verbatim>\<open>QMap<Key,T>::iterator\<close>, all of which need
  \<^verbatim>\<open>QMultiMap\<close> to be a subclass of \<^verbatim>\<open>QMap\<close>. The two Qt containers are
  library code; the definitions of this section state their documented Qt 5 behaviour.

  A \<^verbatim>\<open>QList<Key>\<close> is a HOL list, a position is an \<^verbatim>\<open>int\<close> (modelled as \<^typ>\<open>int\<close>; a
  list never reaches \<open>2^31\<close> elements). A default-constructed \<^verbatim>\<open>Key()\<close> or \<^verbatim>\<open>T()\<close> is
  an explicit parameter (\<open>dk\<close>, \<open>dv\<close>) of every function that constructs one.
\<close>

definition qlist_valid :: "'a list \<Rightarrow> int \<Rightarrow> bool" where
  "qlist_valid xs i \<longleftrightarrow> 0 \<le> i \<and> i < int (length xs)"

definition qlist_contains :: "'a list \<Rightarrow> 'a \<Rightarrow> bool" where
  "qlist_contains xs x \<longleftrightarrow> x \<in> set xs"

definition qlist_append :: "'a list \<Rightarrow> 'a \<Rightarrow> 'a list" where
  "qlist_append xs x = xs @ [x]"

definition qlist_prepend :: "'a list \<Rightarrow> 'a \<Rightarrow> 'a list" where
  "qlist_prepend xs x = x # xs"

text \<open>\<^verbatim>\<open>QList::at(i)\<close> asserts \<open>0 \<le> i < size()\<close>; out of range it has no defined result
  (\<open>None\<close>).\<close>

definition qlist_at :: "'a list \<Rightarrow> int \<Rightarrow> 'a option" where
  "qlist_at xs i = (if qlist_valid xs i then Some (xs ! nat i) else None)"

text \<open>\<^verbatim>\<open>QList::value(i)\<close> returns a default-constructed element out of range.\<close>

definition qlist_value :: "'a \<Rightarrow> 'a list \<Rightarrow> int \<Rightarrow> 'a" where
  "qlist_value d xs i = (if qlist_valid xs i then xs ! nat i else d)"

text \<open>\<^verbatim>\<open>QList::indexOf(x)\<close> scans from position 0 and returns the first position holding
  \<open>x\<close>, or \<open>-1\<close>.\<close>

fun indexOf_from :: "int \<Rightarrow> 'a list \<Rightarrow> 'a \<Rightarrow> int" where
  "indexOf_from i [] x = -1"
| "indexOf_from i (y # ys) x = (if y = x then i else indexOf_from (i + 1) ys x)"

definition qlist_indexOf :: "'a list \<Rightarrow> 'a \<Rightarrow> int" where
  "qlist_indexOf xs x = indexOf_from 0 xs x"

text \<open>Qt 5's \<^verbatim>\<open>QList::removeAt(i)\<close> is guarded by \<^verbatim>\<open>if (i >= 0 && i < p.size())\<close>: out of
  range it does nothing.\<close>

definition qlist_removeAt :: "'a list \<Rightarrow> int \<Rightarrow> 'a list" where
  "qlist_removeAt xs i =
     (if qlist_valid xs i then take (nat i) xs @ drop (Suc (nat i)) xs else xs)"

definition qlist_removeAll :: "'a list \<Rightarrow> 'a \<Rightarrow> 'a list" where
  "qlist_removeAll xs x = filter (\<lambda>y. y \<noteq> x) xs"

text \<open>\<^verbatim>\<open>QList::last()\<close> asserts that the list is not empty.\<close>

definition qlist_last :: "'a list \<Rightarrow> 'a option" where
  "qlist_last xs = (if xs = [] then None else Some (last xs))"

text \<open>A \<^verbatim>\<open>QMap<Key,T>\<close> holds one value per key: a map \<open>'k \<rightharpoonup> 'v\<close>.\<close>

definition qmap_insert :: "('k \<rightharpoonup> 'v) \<Rightarrow> 'k \<Rightarrow> 'v \<Rightarrow> ('k \<rightharpoonup> 'v)" where
  "qmap_insert m k v = m(k \<mapsto> v)"

definition qmap_value :: "('k \<rightharpoonup> 'v) \<Rightarrow> 'k \<Rightarrow> 'v \<Rightarrow> 'v" where
  "qmap_value m k d = (case m k of None \<Rightarrow> d | Some v \<Rightarrow> v)"

text \<open>\<^verbatim>\<open>QMap::remove(key)\<close> returns the number of items removed.\<close>

definition qmap_remove :: "('k \<rightharpoonup> 'v) \<Rightarrow> 'k \<Rightarrow> int \<times> ('k \<rightharpoonup> 'v)" where
  "qmap_remove m k = ((case m k of None \<Rightarrow> 0 | Some v \<Rightarrow> 1), m(k := None))"

text \<open>\<^verbatim>\<open>QMap::operator[](key)\<close> (non-const) inserts a default-constructed value for an
  absent key before it returns the reference.\<close>

definition qmap_subscript :: "'v \<Rightarrow> ('k \<rightharpoonup> 'v) \<Rightarrow> 'k \<Rightarrow> ('k \<rightharpoonup> 'v)" where
  "qmap_subscript dv m k = (case m k of None \<Rightarrow> m(k \<mapsto> dv) | Some v \<Rightarrow> m)"

definition qmap_size :: "('k \<rightharpoonup> 'v) \<Rightarrow> int" where
  "qmap_size m = int (card (dom m))"

text \<open>
  A Qt 5 \<^verbatim>\<open>QMultiMap<Key,T>\<close> holds, for each key, its values from the most recently
  inserted to the least recently inserted (the order of \<^verbatim>\<open>values(key)\<close>): a function
  from keys to value lists, \<open>[]\<close> for an absent key.
\<close>

type_synonym ('k, 'v) qmultimap = "'k \<Rightarrow> 'v list"

definition qmultimap_empty :: "('k, 'v) qmultimap" where
  "qmultimap_empty = (\<lambda>k. [])"

text \<open>\<^verbatim>\<open>QMultiMap::insert\<close> always adds an item, in front of the key's older ones.\<close>

definition qmultimap_insert :: "('k, 'v) qmultimap \<Rightarrow> 'k \<Rightarrow> 'v \<Rightarrow> ('k, 'v) qmultimap" where
  "qmultimap_insert m k v = m(k := v # m k)"

text \<open>\<^verbatim>\<open>QMultiMap::replace\<close> is \<^verbatim>\<open>QMap::insert\<close>: with items for the key present, the
  most recently inserted item's value is replaced; otherwise an item is added.\<close>

definition qmultimap_replace :: "('k, 'v) qmultimap \<Rightarrow> 'k \<Rightarrow> 'v \<Rightarrow> ('k, 'v) qmultimap" where
  "qmultimap_replace m k v = m(k := (case m k of [] \<Rightarrow> [v] | w # ws \<Rightarrow> v # ws))"

text \<open>\<^verbatim>\<open>value(key, d)\<close> is the most recently inserted value of the key, or \<open>d\<close>.\<close>

definition qmultimap_value :: "('k, 'v) qmultimap \<Rightarrow> 'k \<Rightarrow> 'v \<Rightarrow> 'v" where
  "qmultimap_value m k d = (case m k of [] \<Rightarrow> d | w # ws \<Rightarrow> w)"

definition qmultimap_values :: "('k, 'v) qmultimap \<Rightarrow> 'k \<Rightarrow> 'v list" where
  "qmultimap_values m k = m k"

text \<open>\<^verbatim>\<open>remove(key)\<close> removes every item of the key and returns how many there were.\<close>

definition qmultimap_remove :: "('k, 'v) qmultimap \<Rightarrow> 'k \<Rightarrow> int \<times> ('k, 'v) qmultimap" where
  "qmultimap_remove m k = (int (length (m k)), m(k := []))"


section \<open>OrderedQMap\<close>

text \<open>The object is its two base-class subobjects.\<close>

record ('k, 'v) OrderedQMap =
  qmap :: "'k \<rightharpoonup> 'v"
  qlist :: "'k list"

definition om_empty :: "('k, 'v) OrderedQMap" where
  "om_empty = \<lparr>qmap = Map.empty, qlist = []\<rparr>"

definition om_contains :: "('k, 'v) OrderedQMap \<Rightarrow> 'k \<Rightarrow> bool" where
  "om_contains obj key = qlist_contains (qlist obj) key"

definition om_keys :: "('k, 'v) OrderedQMap \<Rightarrow> 'k list" where
  "om_keys obj = qlist obj"

definition om_key :: "'k \<Rightarrow> ('k, 'v) OrderedQMap \<Rightarrow> int \<Rightarrow> 'k" where
  "om_key dk obj index = qlist_value dk (qlist obj) index"

definition om_size :: "('k, 'v) OrderedQMap \<Rightarrow> int" where
  "om_size obj = qmap_size (qmap obj)"

text \<open>\<^verbatim>\<open>value(const Key &)\<close> and \<^verbatim>\<open>value(const Key &, const T &)\<close>.\<close>

definition om_value_or :: "('k, 'v) OrderedQMap \<Rightarrow> 'k \<Rightarrow> 'v \<Rightarrow> 'v" where
  "om_value_or obj key defaultValue = qmap_value (qmap obj) key defaultValue"

definition om_value :: "'v \<Rightarrow> ('k, 'v) OrderedQMap \<Rightarrow> 'k \<Rightarrow> 'v" where
  "om_value dv obj key = qmap_value (qmap obj) key dv"

text \<open>\<^verbatim>\<open>T value(int index) const\<close>: the key comes from \<^verbatim>\<open>QList::value\<close>, the result from
  \<^verbatim>\<open>QMap::value\<close> of that key.\<close>

definition om_value_at :: "'k \<Rightarrow> 'v \<Rightarrow> ('k, 'v) OrderedQMap \<Rightarrow> int \<Rightarrow> 'v" where
  "om_value_at dk dv obj index =
     (let key = qlist_value dk (qlist obj) index in qmap_value (qmap obj) key dv)"

text \<open>\<^verbatim>\<open>T at(int index) const\<close> reads the key with \<^verbatim>\<open>QList::at\<close>.\<close>

definition om_at :: "'v \<Rightarrow> ('k, 'v) OrderedQMap \<Rightarrow> int \<Rightarrow> 'v option" where
  "om_at dv obj index =
     (case qlist_at (qlist obj) index of
        None \<Rightarrow> None
      | Some key \<Rightarrow> Some (qmap_value (qmap obj) key dv))"

text \<open>\<^verbatim>\<open>insert\<close> (and \<^verbatim>\<open>append\<close>, \<^verbatim>\<open>operator()\<close>, \<^verbatim>\<open>operator<<(QPair)\<close>, which do the
  same): the iterator it returns is not modelled.\<close>

definition om_insert :: "'k \<Rightarrow> 'v \<Rightarrow> ('k, 'v) OrderedQMap \<Rightarrow> ('k, 'v) OrderedQMap" where
  "om_insert key val obj =
     (let m = qmap_insert (qmap obj) key val;
          l = (if \<not> qlist_contains (qlist obj) key
               then qlist_append (qlist obj) key else qlist obj)
      in obj\<lparr>qmap := m, qlist := l\<rparr>)"

definition om_append :: "'k \<Rightarrow> 'v \<Rightarrow> ('k, 'v) OrderedQMap \<Rightarrow> ('k, 'v) OrderedQMap" where
  "om_append key val obj = om_insert key val obj"

definition om_prepend :: "'k \<Rightarrow> 'v \<Rightarrow> ('k, 'v) OrderedQMap \<Rightarrow> ('k, 'v) OrderedQMap" where
  "om_prepend key val obj =
     (let m = qmap_insert (qmap obj) key val;
          l = (if \<not> qlist_contains (qlist obj) key
               then qlist_prepend (qlist obj) key else qlist obj)
      in obj\<lparr>qmap := m, qlist := l\<rparr>)"

text \<open>\<^verbatim>\<open>operator()(key, value)\<close> repeats the body of \<^verbatim>\<open>insert\<close>.\<close>

definition om_call :: "'k \<Rightarrow> 'v \<Rightarrow> ('k, 'v) OrderedQMap \<Rightarrow> ('k, 'v) OrderedQMap" where
  "om_call key val obj =
     (let m = qmap_insert (qmap obj) key val;
          l = (if \<not> qlist_contains (qlist obj) key
               then qlist_append (qlist obj) key else qlist obj)
      in obj\<lparr>qmap := m, qlist := l\<rparr>)"

text \<open>The non-const \<^verbatim>\<open>operator[](key)\<close>: the state after the call, and the state after
  the caller assigned \<open>val\<close> through the reference it returned.\<close>

definition om_subscript :: "'v \<Rightarrow> 'k \<Rightarrow> ('k, 'v) OrderedQMap \<Rightarrow> ('k, 'v) OrderedQMap" where
  "om_subscript dv key obj =
     (let l = (if \<not> qlist_contains (qlist obj) key
               then qlist_append (qlist obj) key else qlist obj)
      in obj\<lparr>qmap := qmap_subscript dv (qmap obj) key, qlist := l\<rparr>)"

definition om_subscript_assign ::
  "'v \<Rightarrow> 'k \<Rightarrow> 'v \<Rightarrow> ('k, 'v) OrderedQMap \<Rightarrow> ('k, 'v) OrderedQMap" where
  "om_subscript_assign dv key val obj =
     (let obj' = om_subscript dv key obj in obj'\<lparr>qmap := (qmap obj')(key \<mapsto> val)\<rparr>)"

text \<open>\<^verbatim>\<open>replaceAt(index, value)\<close> reads the key with \<^verbatim>\<open>QList::at\<close>; it returns the key.\<close>

definition om_replaceAt ::
  "int \<Rightarrow> 'v \<Rightarrow> ('k, 'v) OrderedQMap \<Rightarrow> ('k \<times> ('k, 'v) OrderedQMap) option" where
  "om_replaceAt index val obj =
     (case qlist_at (qlist obj) index of
        None \<Rightarrow> None
      | Some key \<Rightarrow> Some (key, obj\<lparr>qmap := qmap_insert (qmap obj) key val\<rparr>))"

text \<open>\<^verbatim>\<open>int remove(const Key &key)\<close>.\<close>

definition om_remove :: "'k \<Rightarrow> ('k, 'v) OrderedQMap \<Rightarrow> int \<times> ('k, 'v) OrderedQMap" where
  "om_remove key obj =
     (let i = qlist_indexOf (qlist obj) key;
          l = qlist_removeAt (qlist obj) i;
          m = snd (qmap_remove (qmap obj) key)
      in (i, obj\<lparr>qmap := m, qlist := l\<rparr>))"

text \<open>\<^verbatim>\<open>Key removeAt(int i)\<close>: the key is read with \<^verbatim>\<open>key(i)\<close>, that is
  \<^verbatim>\<open>QList::value(i)\<close>.\<close>

definition om_removeAt :: "'k \<Rightarrow> int \<Rightarrow> ('k, 'v) OrderedQMap \<Rightarrow> 'k \<times> ('k, 'v) OrderedQMap" where
  "om_removeAt dk i obj =
     (let key = om_key dk obj i;
          l = qlist_removeAt (qlist obj) i;
          m = snd (qmap_remove (qmap obj) key)
      in (key, obj\<lparr>qmap := m, qlist := l\<rparr>))"

text \<open>\<^verbatim>\<open>Key removeLast()\<close>: \<^verbatim>\<open>QList::last()\<close>, then \<^verbatim>\<open>this->remove(key)\<close>.\<close>

definition om_removeLast :: "('k, 'v) OrderedQMap \<Rightarrow> ('k \<times> ('k, 'v) OrderedQMap) option" where
  "om_removeLast obj =
     (case qlist_last (qlist obj) of
        None \<Rightarrow> None
      | Some key \<Rightarrow> Some (key, snd (om_remove key obj)))"

definition om_clear :: "('k, 'v) OrderedQMap \<Rightarrow> ('k, 'v) OrderedQMap" where
  "om_clear obj = obj\<lparr>qmap := Map.empty, qlist := []\<rparr>"

text \<open>\<^verbatim>\<open>operator<<(const QPair<Key,T> &)\<close> and \<^verbatim>\<open>operator>>(const QPair<Key,T> &)\<close>.\<close>

definition om_shl :: "'k \<times> 'v \<Rightarrow> ('k, 'v) OrderedQMap \<Rightarrow> ('k, 'v) OrderedQMap" where
  "om_shl t obj = om_insert (fst t) (snd t) obj"

definition om_shr :: "'k \<times> 'v \<Rightarrow> ('k, 'v) OrderedQMap \<Rightarrow> ('k, 'v) OrderedQMap" where
  "om_shr t obj = om_prepend (fst t) (snd t) obj"

text \<open>\<^verbatim>\<open>keyOrder(key)\<close>: \<^verbatim>\<open>keys().indexOf(key)\<close>.\<close>

definition om_keyOrder :: "('k, 'v) OrderedQMap \<Rightarrow> 'k \<Rightarrow> int" where
  "om_keyOrder obj key = (let keysTmp = om_keys obj in qlist_indexOf keysTmp key)"

text \<open>
  The \<^verbatim>\<open>QDataStream\<close> operators. \<^verbatim>\<open>out << obj.keys() << tmpMap\<close> writes a
  \<^verbatim>\<open>QList<Key>\<close> and a \<^verbatim>\<open>QMap<Key,T>\<close>, and \<^verbatim>\<open>in >> keys >> tmpMap\<close> reads the two
  back; the stream segment is modelled as the pair of the two values (Qt's own stream
  operators for \<^verbatim>\<open>QList\<close> and \<^verbatim>\<open>QMap\<close> give back what was written; stream errors are
  not modelled).
\<close>

type_synonym ('k, 'v) om_stream = "'k list \<times> ('k \<rightharpoonup> 'v)"

definition om_write :: "'v \<Rightarrow> ('k, 'v) OrderedQMap \<Rightarrow> ('k, 'v) om_stream" where
  "om_write dv obj =
     (let keys = om_keys obj;
          tmpMap = fold (\<lambda>k t. qmap_insert t k (om_value dv obj k)) keys Map.empty
      in (om_keys obj, tmpMap))"

definition om_read ::
  "'v \<Rightarrow> ('k, 'v) om_stream \<Rightarrow> ('k, 'v) OrderedQMap \<Rightarrow> ('k, 'v) OrderedQMap" where
  "om_read dv inp obj =
     (case inp of (keys, tmpMap) \<Rightarrow>
        fold (\<lambda>k ob. om_insert k (qmap_value tmpMap k dv) ob) keys obj)"

text \<open>
  A public mutating call of \<^verbatim>\<open>OrderedQMap\<close>, and a sequence of them run from a given
  object. \<open>om_apply\<close> has no result where the call has none: \<^verbatim>\<open>replaceAt\<close> at an
  invalid index (\<^verbatim>\<open>QList::at\<close> out of range) and \<^verbatim>\<open>removeLast\<close> on an empty list
  (\<^verbatim>\<open>QList::last\<close> on an empty list). \<^verbatim>\<open>removeAt\<close> is run at valid indexes only.
\<close>

datatype ('k, 'v) om_op =
    OpInsert 'k 'v
  | OpAppend 'k 'v
  | OpPrepend 'k 'v
  | OpReplaceAt int 'v
  | OpRemove 'k
  | OpRemoveAt int
  | OpRemoveLast
  | OpClear
  | OpCall 'k 'v
  | OpSubscript 'k
  | OpSubscriptAssign 'k 'v
  | OpShl 'k 'v
  | OpShr 'k 'v

fun om_apply ::
  "'k \<Rightarrow> 'v \<Rightarrow> ('k, 'v) om_op \<Rightarrow> ('k, 'v) OrderedQMap \<Rightarrow> ('k, 'v) OrderedQMap option" where
  "om_apply dk dv (OpInsert k v) obj = Some (om_insert k v obj)"
| "om_apply dk dv (OpAppend k v) obj = Some (om_append k v obj)"
| "om_apply dk dv (OpPrepend k v) obj = Some (om_prepend k v obj)"
| "om_apply dk dv (OpReplaceAt i v) obj = map_option snd (om_replaceAt i v obj)"
| "om_apply dk dv (OpRemove k) obj = Some (snd (om_remove k obj))"
| "om_apply dk dv (OpRemoveAt i) obj =
     (if qlist_valid (qlist obj) i then Some (snd (om_removeAt dk i obj)) else None)"
| "om_apply dk dv OpRemoveLast obj = map_option snd (om_removeLast obj)"
| "om_apply dk dv OpClear obj = Some (om_clear obj)"
| "om_apply dk dv (OpCall k v) obj = Some (om_call k v obj)"
| "om_apply dk dv (OpSubscript k) obj = Some (om_subscript dv k obj)"
| "om_apply dk dv (OpSubscriptAssign k v) obj = Some (om_subscript_assign dv k v obj)"
| "om_apply dk dv (OpShl k v) obj = Some (om_shl (k, v) obj)"
| "om_apply dk dv (OpShr k v) obj = Some (om_shr (k, v) obj)"

fun om_run ::
  "'k \<Rightarrow> 'v \<Rightarrow> ('k, 'v) om_op list \<Rightarrow> ('k, 'v) OrderedQMap \<Rightarrow> ('k, 'v) OrderedQMap option"
  where
  "om_run dk dv [] obj = Some obj"
| "om_run dk dv (c # cs) obj =
     (case om_apply dk dv c obj of None \<Rightarrow> None | Some obj' \<Rightarrow> om_run dk dv cs obj')"


section \<open>OrderedQMultiMap\<close>

record ('k, 'v) OrderedQMultiMap =
  qmultimap :: "('k, 'v) qmultimap"
  qmlist :: "'k list"

definition mm_empty :: "('k, 'v) OrderedQMultiMap" where
  "mm_empty = \<lparr>qmultimap = qmultimap_empty, qmlist = []\<rparr>"

definition mm_contains :: "('k, 'v) OrderedQMultiMap \<Rightarrow> 'k \<Rightarrow> bool" where
  "mm_contains obj key = qlist_contains (qmlist obj) key"

definition mm_keys :: "('k, 'v) OrderedQMultiMap \<Rightarrow> 'k list" where
  "mm_keys obj = qmlist obj"

definition mm_value :: "'v \<Rightarrow> ('k, 'v) OrderedQMultiMap \<Rightarrow> 'k \<Rightarrow> 'v" where
  "mm_value dv obj key = qmultimap_value (qmultimap obj) key dv"

text \<open>\<^verbatim>\<open>values(key)\<close> is inherited from the public base \<^verbatim>\<open>QMultiMap\<close>.\<close>

definition mm_values :: "('k, 'v) OrderedQMultiMap \<Rightarrow> 'k \<Rightarrow> 'v list" where
  "mm_values obj key = qmultimap_values (qmultimap obj) key"

definition mm_insert ::
  "'k \<Rightarrow> 'v \<Rightarrow> ('k, 'v) OrderedQMultiMap \<Rightarrow> ('k, 'v) OrderedQMultiMap" where
  "mm_insert key val obj =
     obj\<lparr>qmultimap := qmultimap_insert (qmultimap obj) key val,
         qmlist := qlist_append (qmlist obj) key\<rparr>"

definition mm_prepend ::
  "'k \<Rightarrow> 'v \<Rightarrow> ('k, 'v) OrderedQMultiMap \<Rightarrow> ('k, 'v) OrderedQMultiMap" where
  "mm_prepend key val obj =
     (let m = qmultimap_insert (qmultimap obj) key val;
          l = (if \<not> qlist_contains (qmlist obj) key
               then qlist_prepend (qmlist obj) key else qmlist obj)
      in obj\<lparr>qmultimap := m, qmlist := l\<rparr>)"

definition mm_replace ::
  "'k \<Rightarrow> 'v \<Rightarrow> ('k, 'v) OrderedQMultiMap \<Rightarrow> ('k, 'v) OrderedQMultiMap" where
  "mm_replace key val obj =
     (let l = (if \<not> qlist_contains (qmlist obj) key
               then qlist_append (qmlist obj) key else qmlist obj)
      in obj\<lparr>qmultimap := qmultimap_replace (qmultimap obj) key val, qmlist := l\<rparr>)"

definition mm_remove ::
  "'k \<Rightarrow> ('k, 'v) OrderedQMultiMap \<Rightarrow> int \<times> ('k, 'v) OrderedQMultiMap" where
  "mm_remove key obj =
     (let l = qlist_removeAll (qmlist obj) key;
          r = qmultimap_remove (qmultimap obj) key
      in (fst r, obj\<lparr>qmultimap := snd r, qmlist := l\<rparr>))"

text \<open>The stream operators of the multi-map: the same two loops, over a
  \<^verbatim>\<open>QMultiMap<Key,T> tmpMap\<close>.\<close>

type_synonym ('k, 'v) mm_stream = "'k list \<times> ('k, 'v) qmultimap"

definition mm_write :: "'v \<Rightarrow> ('k, 'v) OrderedQMultiMap \<Rightarrow> ('k, 'v) mm_stream" where
  "mm_write dv obj =
     (let keys = mm_keys obj;
          tmpMap = fold (\<lambda>k t. qmultimap_insert t k (mm_value dv obj k)) keys qmultimap_empty
      in (mm_keys obj, tmpMap))"

definition mm_read ::
  "'v \<Rightarrow> ('k, 'v) mm_stream \<Rightarrow> ('k, 'v) OrderedQMultiMap \<Rightarrow> ('k, 'v) OrderedQMultiMap" where
  "mm_read dv inp obj =
     (case inp of (keys, tmpMap) \<Rightarrow>
        fold (\<lambda>k ob. mm_insert k (qmultimap_value tmpMap k dv) ob) keys obj)"

section \<open>Consistency of the two structures\<close>

text \<open>The key list and the map agree: the list holds exactly the keys of the map, each
  once.\<close>

definition om_wf :: "('k, 'v) OrderedQMap \<Rightarrow> bool" where
  "om_wf obj \<longleftrightarrow> set (qlist obj) = dom (qmap obj) \<and> distinct (qlist obj)"


section \<open>Facts about the Qt primitives\<close>

lemma indexOf_from_absent: "x \<notin> set xs \<Longrightarrow> indexOf_from i xs x = -1"
  by (induction xs arbitrary: i) auto

lemma indexOf_from_present:
  "x \<in> set xs \<Longrightarrow>
     i \<le> indexOf_from i xs x \<and> indexOf_from i xs x < i + int (length xs) \<and>
     xs ! nat (indexOf_from i xs x - i) = x \<and>
     x \<notin> set (take (nat (indexOf_from i xs x - i)) xs)"
proof (induction xs arbitrary: i)
  case Nil
  then show ?case by simp
next
  case (Cons y ys)
  show ?case
  proof (cases "y = x")
    case True
    then show ?thesis by simp
  next
    case False
    with Cons.prems have mem: "x \<in> set ys" by simp
    note ih = Cons.IH [OF mem, of "i + 1"]
    let ?r = "indexOf_from (i + 1) ys x"
    have n: "nat (?r - i) = Suc (nat (?r - (i + 1)))" using ih by linarith
    show ?thesis using False ih by (simp add: n)
  qed
qed

lemma qlist_indexOf_absent: "x \<notin> set xs \<Longrightarrow> qlist_indexOf xs x = -1"
  by (simp add: qlist_indexOf_def indexOf_from_absent)

lemma qlist_indexOf_present:
  assumes "x \<in> set xs"
  shows "qlist_valid xs (qlist_indexOf xs x)"
    and "xs ! nat (qlist_indexOf xs x) = x"
    and "x \<notin> set (take (nat (qlist_indexOf xs x)) xs)"
  using indexOf_from_present [OF assms, of 0]
  by (simp_all add: qlist_indexOf_def qlist_valid_def)

lemma qlist_valid_nat: "qlist_valid xs i \<Longrightarrow> nat i < length xs"
  unfolding qlist_valid_def by linarith

lemma distinct_count_list: "distinct xs \<Longrightarrow> x \<in> set xs \<Longrightarrow> count_list xs x = 1"
  by (induction xs) auto

lemma set_removeAt_distinct:
  assumes "distinct xs" "n < length xs"
  shows "set (take n xs @ drop (Suc n) xs) = set xs - {xs ! n}"
    and "distinct (take n xs @ drop (Suc n) xs)"
proof -
  have xs: "xs = take n xs @ (xs ! n) # drop (Suc n) xs"
    using assms(2) by (simp add: id_take_nth_drop)
  have d: "distinct (take n xs @ (xs ! n) # drop (Suc n) xs)"
    using assms(1) xs by simp
  from d show "distinct (take n xs @ drop (Suc n) xs)" by auto
  have "set xs = set (take n xs @ (xs ! n) # drop (Suc n) xs)" using xs by simp
  with d show "set (take n xs @ drop (Suc n) xs) = set xs - {xs ! n}" by auto
qed

lemma qlist_removeAt_distinct:
  assumes "distinct xs" "qlist_valid xs i"
  shows "set (qlist_removeAt xs i) = set xs - {xs ! nat i}"
    and "distinct (qlist_removeAt xs i)"
proof -
  have n: "nat i < length xs" using assms(2) by (rule qlist_valid_nat)
  show "set (qlist_removeAt xs i) = set xs - {xs ! nat i}"
    using set_removeAt_distinct(1) [OF assms(1) n] assms(2) by (simp add: qlist_removeAt_def)
  show "distinct (qlist_removeAt xs i)"
    using set_removeAt_distinct(2) [OF assms(1) n] assms(2) by (simp add: qlist_removeAt_def)
qed


section \<open>Every public mutator keeps the key list and the map consistent\<close>

lemma om_wf_empty: "om_wf om_empty"
  by (simp add: om_wf_def om_empty_def)

lemma om_wf_insert: "om_wf obj \<Longrightarrow> om_wf (om_insert key val obj)"
  by (auto simp: om_wf_def om_insert_def qlist_contains_def qlist_append_def qmap_insert_def)

lemma om_wf_prepend: "om_wf obj \<Longrightarrow> om_wf (om_prepend key val obj)"
  by (auto simp: om_wf_def om_prepend_def qlist_contains_def qlist_prepend_def qmap_insert_def)

lemma om_wf_call: "om_wf obj \<Longrightarrow> om_wf (om_call key val obj)"
  by (auto simp: om_wf_def om_call_def qlist_contains_def qlist_append_def qmap_insert_def)

lemma om_wf_subscript: "om_wf obj \<Longrightarrow> om_wf (om_subscript dv key obj)"
  by (auto simp: om_wf_def om_subscript_def qlist_contains_def qlist_append_def
      qmap_subscript_def split: option.splits)

lemma om_wf_subscript_assign: "om_wf obj \<Longrightarrow> om_wf (om_subscript_assign dv key val obj)"
  using om_wf_subscript [of obj dv key]
  by (auto simp: om_wf_def om_subscript_assign_def Let_def om_subscript_def qlist_contains_def
      qlist_append_def split: if_splits)

lemma om_wf_clear: "om_wf (om_clear obj)"
  by (simp add: om_wf_def om_clear_def)

lemma om_wf_replaceAt:
  assumes "om_wf obj" "om_replaceAt index val obj = Some (key, obj')"
  shows "om_wf obj'"
proof -
  from assms(2) have v: "qlist_valid (qlist obj) index"
    and k: "key = qlist obj ! nat index"
    and o: "obj' = obj\<lparr>qmap := qmap_insert (qmap obj) key val\<rparr>"
    by (auto simp: om_replaceAt_def qlist_at_def split: if_splits)
  from v have "key \<in> set (qlist obj)" unfolding k by (simp add: qlist_valid_nat)
  with assms(1) show ?thesis by (auto simp: om_wf_def o qmap_insert_def)
qed

lemma om_remove_present:
  assumes "om_wf obj" "key \<in> set (qlist obj)"
  shows "om_wf (snd (om_remove key obj))"
proof -
  note p = qlist_indexOf_present [OF assms(2)]
  from assms(1) have d: "distinct (qlist obj)" by (simp add: om_wf_def)
  note r = qlist_removeAt_distinct [OF d p(1)]
  show ?thesis using assms(1) r p(2)
    by (auto simp: om_wf_def om_remove_def Let_def qmap_remove_def)
qed

lemma om_remove_absent:
  assumes "om_wf obj" "key \<notin> set (qlist obj)"
  shows "om_remove key obj = (-1, obj)"
proof -
  from assms have n: "qmap obj key = None" by (auto simp: om_wf_def)
  have "(qmap obj)(key := None) = qmap obj" using n by (simp add: fun_upd_idem)
  then show ?thesis using assms(2)
    by (simp add: om_remove_def Let_def qlist_indexOf_absent qlist_removeAt_def
        qlist_valid_def qmap_remove_def)
qed

lemma om_wf_remove: "om_wf obj \<Longrightarrow> om_wf (snd (om_remove key obj))"
  by (cases "key \<in> set (qlist obj)") (simp_all add: om_remove_present om_remove_absent)

lemma om_wf_removeAt:
  assumes "om_wf obj" "qlist_valid (qlist obj) i"
  shows "om_wf (snd (om_removeAt dk i obj))"
proof -
  from assms(1) have d: "distinct (qlist obj)" by (simp add: om_wf_def)
  note r = qlist_removeAt_distinct [OF d assms(2)]
  show ?thesis using assms r
    by (auto simp: om_wf_def om_removeAt_def Let_def qmap_remove_def om_key_def qlist_value_def)
qed

lemma om_wf_removeLast:
  assumes "om_wf obj" "om_removeLast obj = Some (key, obj')"
  shows "om_wf obj'"
  using assms by (auto simp: om_removeLast_def om_wf_remove split: option.splits)

lemma om_wf_apply:
  assumes "om_wf obj" "om_apply dk dv c obj = Some obj'"
  shows "om_wf obj'"
proof (cases c)
  case (OpReplaceAt i v)
  with assms show ?thesis by (auto dest: om_wf_replaceAt)
next
  case (OpRemoveAt i)
  with assms show ?thesis by (auto simp: om_wf_removeAt split: if_splits)
next
  case OpRemoveLast
  with assms show ?thesis by (auto dest: om_wf_removeLast)
qed (use assms in \<open>auto simp: om_wf_insert om_wf_prepend om_wf_call om_wf_subscript
      om_wf_subscript_assign om_wf_clear om_wf_remove om_append_def om_shl_def om_shr_def\<close>)

lemma om_wf_run: "om_wf obj \<Longrightarrow> om_run dk dv cs obj = Some obj' \<Longrightarrow> om_wf obj'"
proof (induction cs arbitrary: obj)
  case Nil
  then show ?case by simp
next
  case (Cons c cs)
  then show ?case by (auto split: option.splits dest: om_wf_apply)
qed

text \<open>
  Claim C1. Run any sequence of public mutating calls from the empty map: \<^verbatim>\<open>insert\<close>,
  \<^verbatim>\<open>append\<close>, \<^verbatim>\<open>prepend\<close>, \<^verbatim>\<open>replaceAt\<close> and \<^verbatim>\<open>removeAt\<close> at a valid index,
  \<^verbatim>\<open>remove\<close> of any key, \<^verbatim>\<open>removeLast\<close> on a non-empty map, \<^verbatim>\<open>clear\<close>,
  \<^verbatim>\<open>operator()\<close>, \<^verbatim>\<open>operator[]\<close> (alone, or assigned through), and the pair operators
  \<^verbatim>\<open><<\<close> and \<^verbatim>\<open>>>\<close>. Afterwards the keys of the order list are the keys of the store,
  every key of the store occurs in the order list exactly once, no key occurs twice, and
  the length of the order list is the size of the store.
\<close>

theorem om_invariants:
  assumes "om_run dk dv calls om_empty = Some obj"
  shows "set (om_keys obj) = dom (qmap obj) \<and>
         (\<forall>k \<in> dom (qmap obj). count_list (om_keys obj) k = 1) \<and>
         distinct (om_keys obj) \<and>
         int (length (om_keys obj)) = om_size obj"
proof -
  have wf: "om_wf obj" using om_wf_run [OF om_wf_empty assms] .
  then have s: "set (qlist obj) = dom (qmap obj)" and d: "distinct (qlist obj)"
    by (simp_all add: om_wf_def)
  have c: "\<forall>k \<in> dom (qmap obj). count_list (qlist obj) k = 1"
    using s d by (simp add: distinct_count_list)
  have "card (dom (qmap obj)) = length (qlist obj)"
    using distinct_card [OF d] s by simp
  with s d c show ?thesis by (simp add: om_keys_def om_size_def qmap_size_def)
qed

theorem om_invariants_witness:
  "om_run '''' (0::int)
     [OpInsert ''b'' 2, OpInsert ''a'' 1, OpPrepend ''c'' 3, OpReplaceAt 0 20, OpRemove ''a'',
      OpSubscriptAssign ''d'' 4, OpRemoveAt 1, OpRemoveLast, OpCall ''e'' 5] om_empty
   = Some \<lparr>qmap = [''c'' \<mapsto> 20, ''e'' \<mapsto> 5], qlist = [''c'', ''e'']\<rparr> \<and>
   set (om_keys \<lparr>qmap = [''c'' \<mapsto> 20::int, ''e'' \<mapsto> 5], qlist = [''c'', ''e'']\<rparr>)
     = dom [''c'' \<mapsto> 20::int, ''e'' \<mapsto> 5] \<and>
   distinct (om_keys \<lparr>qmap = [''c'' \<mapsto> 20::int, ''e'' \<mapsto> 5], qlist = [''c'', ''e'']\<rparr>) \<and>
   int (length (om_keys \<lparr>qmap = [''c'' \<mapsto> 20::int, ''e'' \<mapsto> 5], qlist = [''c'', ''e'']\<rparr>))
     = om_size \<lparr>qmap = [''c'' \<mapsto> 20::int, ''e'' \<mapsto> 5], qlist = [''c'', ''e'']\<rparr>"
proof -
  have r: "om_run '''' (0::int)
     [OpInsert ''b'' 2, OpInsert ''a'' 1, OpPrepend ''c'' 3, OpReplaceAt 0 20, OpRemove ''a'',
      OpSubscriptAssign ''d'' 4, OpRemoveAt 1, OpRemoveLast, OpCall ''e'' 5] om_empty
   = Some \<lparr>qmap = [''c'' \<mapsto> 20, ''e'' \<mapsto> 5], qlist = [''c'', ''e'']\<rparr>"
    by (simp add: om_empty_def om_insert_def om_prepend_def om_replaceAt_def om_remove_def
        om_subscript_assign_def om_subscript_def om_removeAt_def om_removeLast_def om_call_def
        om_key_def qlist_contains_def qlist_append_def qlist_prepend_def qlist_at_def
        qlist_valid_def qlist_value_def qlist_indexOf_def qlist_removeAt_def qlist_last_def
        qmap_insert_def qmap_remove_def qmap_subscript_def fun_eq_iff)
  show ?thesis using r om_invariants [OF r] by simp
qed


section \<open>Overwriting an existing key\<close>

text \<open>
  Claim C5. When the map already contains \<open>key\<close>, \<^verbatim>\<open>insert(key, newValue)\<close> makes
  \<^verbatim>\<open>value(key)\<close> equal to \<open>newValue\<close> and leaves \<^verbatim>\<open>keys()\<close>, and so the key's position
  \<^verbatim>\<open>keyOrder(key)\<close>, as they were.
\<close>

theorem om_insert_existing:
  assumes "om_contains obj key"
  shows "om_value dv (om_insert key newValue obj) key = newValue \<and>
         om_keys (om_insert key newValue obj) = om_keys obj \<and>
         om_keyOrder (om_insert key newValue obj) key = om_keyOrder obj key"
  using assms
  by (simp add: om_contains_def om_insert_def om_value_def om_keys_def om_keyOrder_def
      qmap_insert_def qmap_value_def)

theorem om_insert_existing_witness:
  "om_contains (om_insert ''a'' (1::int) (om_insert ''b'' 2 om_empty)) ''b'' \<and>
   om_value 0 (om_insert ''b'' 7 (om_insert ''a'' (1::int) (om_insert ''b'' 2 om_empty))) ''b'' = 7 \<and>
   om_keys (om_insert ''b'' 7 (om_insert ''a'' (1::int) (om_insert ''b'' 2 om_empty)))
     = [''b'', ''a'']"
proof -
  have h: "om_contains (om_insert ''a'' (1::int) (om_insert ''b'' 2 om_empty)) ''b''"
    by (simp add: om_contains_def om_insert_def om_empty_def qlist_contains_def
        qlist_append_def)
  have k: "om_keys (om_insert ''a'' (1::int) (om_insert ''b'' 2 om_empty)) = [''b'', ''a'']"
    by (simp add: om_keys_def om_insert_def om_empty_def qlist_contains_def qlist_append_def)
  show ?thesis using h k om_insert_existing [OF h, of 0 7] by simp
qed


section \<open>The stream round trip of OrderedQMap\<close>

lemma fold_qmap_insert:
  "fold (\<lambda>k t. qmap_insert t k (f k)) ks t0 = (\<lambda>k. if k \<in> set ks then Some (f k) else t0 k)"
  by (induction ks arbitrary: t0) (auto simp: qmap_insert_def fun_eq_iff)

lemma qmap_fold_om_insert:
  "qmap (fold (\<lambda>k ob. om_insert k (g k) ob) ks obj) =
     (\<lambda>k. if k \<in> set ks then Some (g k) else qmap obj k)"
  by (induction ks arbitrary: obj) (auto simp: om_insert_def qmap_insert_def fun_eq_iff)

lemma qlist_fold_om_insert_fresh:
  "distinct ks \<Longrightarrow> set ks \<inter> set (qlist obj) = {} \<Longrightarrow>
     qlist (fold (\<lambda>k ob. om_insert k (g k) ob) ks obj) = qlist obj @ ks"
  by (induction ks arbitrary: obj)
     (auto simp: om_insert_def qlist_contains_def qlist_append_def)

lemma qlist_fold_om_insert:
  "qlist (fold (\<lambda>k ob. om_insert k (g k) ob) ks obj) =
     qlist obj @ filter (\<lambda>k. k \<notin> set (qlist obj))
                   (qlist (fold (\<lambda>k ob. om_insert k (g k) ob) ks om_empty))"
proof (induction ks arbitrary: obj)
  case Nil
  then show ?case by (simp add: om_empty_def)
next
  case (Cons k ks)
  let ?F = "\<lambda>k ob. om_insert k (g k) ob"
  let ?E = "qlist (fold ?F ks om_empty)"
  have e0: "qlist (om_insert k (g k) om_empty) = [k]"
    by (simp add: om_insert_def om_empty_def qlist_contains_def qlist_append_def)
  have e: "qlist (fold ?F ks (om_insert k (g k) om_empty)) = k # filter (\<lambda>x. x \<noteq> k) ?E"
    using Cons.IH [of "om_insert k (g k) om_empty"] by (simp add: e0)
  show ?case
  proof (cases "k \<in> set (qlist obj)")
    case True
    then have "qlist (om_insert k (g k) obj) = qlist obj"
      by (simp add: om_insert_def qlist_contains_def)
    moreover have "filter (\<lambda>x. x \<notin> set (qlist obj)) (filter (\<lambda>x. x \<noteq> k) ?E)
        = filter (\<lambda>x. x \<notin> set (qlist obj)) ?E"
      using True by (auto intro: filter_cong)
    ultimately show ?thesis
      using Cons.IH [of "om_insert k (g k) obj"] True by (simp add: e)
  next
    case False
    then have "qlist (om_insert k (g k) obj) = qlist obj @ [k]"
      by (simp add: om_insert_def qlist_contains_def qlist_append_def)
    moreover have "filter (\<lambda>x. x \<notin> set (qlist obj) \<and> x \<noteq> k) ?E
        = filter (\<lambda>x. x \<notin> set (qlist obj)) (filter (\<lambda>x. x \<noteq> k) ?E)"
      by (auto intro: filter_cong)
    ultimately show ?thesis
      using Cons.IH [of "om_insert k (g k) obj"] False by (simp add: e conj_commute)
  qed
qed

text \<open>
  Claim C2. Write an OrderedQMap whose order list holds no key twice (every map built by
  the public calls is one) to a stream and read the stream into an empty OrderedQMap: the
  result has the same \<^verbatim>\<open>keys()\<close> sequence, and \<^verbatim>\<open>value(key)\<close> is the original's for
  every key of the sequence.
\<close>

theorem om_round_trip:
  assumes "distinct (om_keys obj)"
  shows "om_keys (om_read dv (om_write dv obj) om_empty) = om_keys obj \<and>
         (\<forall>k \<in> set (om_keys obj).
            om_value dv (om_read dv (om_write dv obj) om_empty) k = om_value dv obj k)"
proof -
  have "qlist (om_read dv (om_write dv obj) om_empty) = qlist obj"
    using assms qlist_fold_om_insert_fresh [of "qlist obj" om_empty]
    by (simp add: om_read_def om_write_def om_keys_def om_empty_def)
  moreover have "\<forall>k \<in> set (qlist obj).
      qmap (om_read dv (om_write dv obj) om_empty) k = Some (om_value dv obj k)"
    by (simp add: om_read_def om_write_def om_keys_def qmap_fold_om_insert fold_qmap_insert
        qmap_value_def)
  ultimately show ?thesis
    by (simp add: om_keys_def om_value_def qmap_value_def)
qed

theorem om_round_trip_witness:
  "distinct (om_keys (om_insert ''a'' (1::int) (om_insert ''b'' 2 om_empty))) \<and>
   om_keys (om_read 0 (om_write 0 (om_insert ''a'' (1::int) (om_insert ''b'' 2 om_empty))) om_empty)
     = [''b'', ''a''] \<and>
   om_value 0 (om_read 0 (om_write 0 (om_insert ''a'' (1::int) (om_insert ''b'' 2 om_empty)))
     om_empty) ''b'' = 2 \<and>
   om_value 0 (om_read 0 (om_write 0 (om_insert ''a'' (1::int) (om_insert ''b'' 2 om_empty)))
     om_empty) ''a'' = 1"
proof -
  let ?obj = "om_insert ''a'' (1::int) (om_insert ''b'' 2 om_empty)"
  have k: "om_keys ?obj = [''b'', ''a'']"
    by (simp add: om_keys_def om_insert_def om_empty_def qlist_contains_def qlist_append_def)
  have h: "distinct (om_keys ?obj)" by (simp add: k)
  have v: "om_value 0 ?obj ''b'' = 2" "om_value 0 ?obj ''a'' = 1"
    by (simp_all add: om_value_def om_insert_def om_empty_def qmap_insert_def qmap_value_def)
  show ?thesis using h k v om_round_trip [OF h, of 0] by simp
qed

text \<open>With the store and the order list consistent, the object read is the object
  written.\<close>

lemma om_read_write_identity:
  assumes "om_wf obj"
  shows "om_read dv (om_write dv obj) om_empty = obj"
proof -
  from assms have d: "distinct (qlist obj)" and s: "set (qlist obj) = dom (qmap obj)"
    by (simp_all add: om_wf_def)
  have l: "qlist (om_read dv (om_write dv obj) om_empty) = qlist obj"
    using d qlist_fold_om_insert_fresh [of "qlist obj" om_empty]
    by (simp add: om_read_def om_write_def om_keys_def om_empty_def)
  have m: "qmap (om_read dv (om_write dv obj) om_empty) = qmap obj"
    using s
    by (auto simp: om_read_def om_write_def om_keys_def qmap_fold_om_insert fold_qmap_insert
        qmap_value_def om_value_def om_empty_def fun_eq_iff split: option.splits)
  from l m show ?thesis by simp
qed

lemma remdups_snoc: "remdups (xs @ [k]) = filter (\<lambda>x. x \<noteq> k) (remdups xs) @ [k]"
  by (induction xs) auto

text \<open>Reading into the empty map lists the stream's keys in stream order, each at its
  first occurrence.\<close>

lemma qlist_fold_om_insert_empty:
  "qlist (fold (\<lambda>k ob. om_insert k (g k) ob) ks om_empty) = rev (remdups (rev ks))"
proof (induction ks)
  case Nil
  then show ?case by (simp add: om_empty_def)
next
  case (Cons k ks)
  have e0: "qlist (om_insert k (g k) om_empty) = [k]"
    by (simp add: om_insert_def om_empty_def qlist_contains_def qlist_append_def)
  have "qlist (fold (\<lambda>k ob. om_insert k (g k) ob) ks (om_insert k (g k) om_empty))
      = k # filter (\<lambda>x. x \<noteq> k) (rev (remdups (rev ks)))"
    using qlist_fold_om_insert [of g ks "om_insert k (g k) om_empty"]
    by (simp add: e0 Cons.IH)
  then show ?case by (simp add: remdups_snoc rev_filter)
qed

text \<open>
  Claim C10. Reading a stream into an OrderedQMap that already has contents does not clear
  it. The old order list stays in front, every old key at its old position; behind it come
  the stream's keys that were not there yet, each once, in the order of their first
  occurrence in the stream (\<open>rev (remdups (rev keys))\<close> is \<open>keys\<close> with every later
  repetition of a key dropped), which is also the order in which reading into an empty map
  lists them. So the keys of the result are the old keys and the stream's keys, and every
  key of the stream is contained. Every key of the stream has the stream's value
  (\<^verbatim>\<open>tmpMap.value(k)\<close>), every other key keeps its entry of the store, and every old key
  is still contained.
\<close>

theorem om_read_keeps_contents:
  "take (length (om_keys obj)) (om_keys (om_read dv (keys, tmpMap) obj)) = om_keys obj \<and>
   om_keys (om_read dv (keys, tmpMap) obj) =
     om_keys obj @ filter (\<lambda>k. \<not> om_contains obj k) (om_keys (om_read dv (keys, tmpMap) om_empty)) \<and>
   om_keys (om_read dv (keys, tmpMap) obj) =
     om_keys obj @ filter (\<lambda>k. \<not> om_contains obj k) (rev (remdups (rev keys))) \<and>
   om_keys (om_read dv (keys, tmpMap) om_empty) = rev (remdups (rev keys)) \<and>
   set (om_keys (om_read dv (keys, tmpMap) obj)) = set (om_keys obj) \<union> set keys \<and>
   (\<forall>k \<in> set keys. om_contains (om_read dv (keys, tmpMap) obj) k) \<and>
   (\<forall>k \<in> set keys. om_value dv (om_read dv (keys, tmpMap) obj) k = qmap_value tmpMap k dv) \<and>
   (\<forall>k \<in> set keys. qmap (om_read dv (keys, tmpMap) obj) k = Some (qmap_value tmpMap k dv)) \<and>
   (\<forall>k. k \<notin> set keys \<longrightarrow> qmap (om_read dv (keys, tmpMap) obj) k = qmap obj k) \<and>
   (\<forall>k. om_contains obj k \<longrightarrow> om_contains (om_read dv (keys, tmpMap) obj) k \<and>
        om_keyOrder (om_read dv (keys, tmpMap) obj) k = om_keyOrder obj k)"
proof -
  let ?g = "\<lambda>k. qmap_value tmpMap k dv"
  let ?r = "om_read dv (keys, tmpMap) obj"
  let ?e = "om_read dv (keys, tmpMap) om_empty"
  have l: "qlist ?r = qlist obj @ filter (\<lambda>k. k \<notin> set (qlist obj)) (qlist ?e)"
    using qlist_fold_om_insert [of ?g keys obj] by (simp add: om_read_def)
  have f: "qlist ?e = rev (remdups (rev keys))"
    using qlist_fold_om_insert_empty [of ?g keys] by (simp add: om_read_def)
  have m: "qmap ?r = (\<lambda>k. if k \<in> set keys then Some (?g k) else qmap obj k)"
    using qmap_fold_om_insert [of ?g keys obj] by (simp add: om_read_def)
  have i: "indexOf_from j (xs @ ys) k = indexOf_from j xs k" if "k \<in> set xs" for j xs ys and k :: 'a
    using that by (induction xs arbitrary: j) auto
  have 1: "take (length (om_keys obj)) (om_keys ?r) = om_keys obj"
    by (simp add: om_keys_def l)
  have 2: "om_keys ?r = om_keys obj @ filter (\<lambda>k. \<not> om_contains obj k) (om_keys ?e)"
    by (simp add: om_keys_def l om_contains_def qlist_contains_def)
  have 3: "\<forall>k \<in> set keys. om_value dv ?r k = qmap_value tmpMap k dv"
    by (simp add: om_value_def m qmap_value_def)
  have 4: "\<forall>k. k \<notin> set keys \<longrightarrow> qmap ?r k = qmap obj k"
    by (simp add: m)
  have 5: "\<forall>k. om_contains obj k \<longrightarrow> om_contains ?r k \<and> om_keyOrder ?r k = om_keyOrder obj k"
    by (simp add: om_contains_def qlist_contains_def om_keyOrder_def om_keys_def l
        qlist_indexOf_def i)
  have 6: "om_keys ?e = rev (remdups (rev keys))"
    by (simp add: om_keys_def f)
  have 7: "om_keys ?r = om_keys obj @ filter (\<lambda>k. \<not> om_contains obj k) (rev (remdups (rev keys)))"
    using 2 by (simp add: 6)
  have 8: "set (om_keys ?r) = set (om_keys obj) \<union> set keys"
    by (auto simp: om_keys_def l f)
  have 9: "\<forall>k \<in> set keys. om_contains ?r k"
    using 8 by (simp add: om_contains_def qlist_contains_def om_keys_def)
  have 10: "\<forall>k \<in> set keys. qmap ?r k = Some (qmap_value tmpMap k dv)"
    by (simp add: m)
  from 1 2 3 4 5 6 7 8 9 10 show ?thesis by blast
qed

theorem om_read_keeps_contents_witness:
  "om_contains (om_insert ''a'' (1::int) (om_insert ''z'' 9 om_empty)) ''z'' \<and>
   om_keys (om_read 0 ([''c'', ''a'', ''b'', ''c''], [''a'' \<mapsto> 10, ''b'' \<mapsto> 20])
      (om_insert ''a'' (1::int) (om_insert ''z'' 9 om_empty))) = [''z'', ''a'', ''c'', ''b''] \<and>
   om_value 0 (om_read 0 ([''c'', ''a'', ''b'', ''c''], [''a'' \<mapsto> 10, ''b'' \<mapsto> 20])
      (om_insert ''a'' (1::int) (om_insert ''z'' 9 om_empty))) ''a'' = 10 \<and>
   om_value 0 (om_read 0 ([''c'', ''a'', ''b'', ''c''], [''a'' \<mapsto> 10, ''b'' \<mapsto> 20])
      (om_insert ''a'' (1::int) (om_insert ''z'' 9 om_empty))) ''c'' = 0 \<and>
   om_contains (om_read 0 ([''c'', ''a'', ''b'', ''c''], [''a'' \<mapsto> 10, ''b'' \<mapsto> 20])
      (om_insert ''a'' (1::int) (om_insert ''z'' 9 om_empty))) ''b'' \<and>
   qmap (om_read 0 ([''c'', ''a'', ''b'', ''c''], [''a'' \<mapsto> 10, ''b'' \<mapsto> 20])
      (om_insert ''a'' (1::int) (om_insert ''z'' 9 om_empty))) ''z'' = Some 9"
proof -
  let ?obj = "om_insert ''a'' (1::int) (om_insert ''z'' 9 om_empty)"
  let ?tmp = "[''a'' \<mapsto> 10::int, ''b'' \<mapsto> 20]"
  have k: "om_keys ?obj = [''z'', ''a'']"
    by (simp add: om_keys_def om_insert_def om_empty_def qlist_contains_def qlist_append_def)
  have c: "om_contains ?obj ''z''" "om_contains ?obj ''a''" "\<not> om_contains ?obj ''b''"
      "\<not> om_contains ?obj ''c''"
    using k by (simp_all add: om_contains_def om_keys_def qlist_contains_def)
  have z: "qmap ?obj ''z'' = Some 9"
    by (simp add: om_insert_def om_empty_def qmap_insert_def)
  have t: "qmap_value ?tmp ''a'' 0 = 10" "qmap_value ?tmp ''c'' 0 = 0"
    by (simp_all add: qmap_value_def)
  show ?thesis
    using c k z t om_read_keeps_contents [of ?obj 0 "[''c'', ''a'', ''b'', ''c'']" ?tmp]
    by simp
qed


section \<open>Removing a key from OrderedQMap\<close>

text \<open>
  Claim C4. On an OrderedQMap whose order list holds exactly the keys of the store, each
  once: \<^verbatim>\<open>remove(key)\<close> of a contained key returns the position the key had
  (\<^verbatim>\<open>keyOrder(key)\<close>, a valid index holding \<open>key\<close>), takes exactly that position out of
  the order list, after which the key is not contained, and removes the key from the
  store; \<^verbatim>\<open>remove(key)\<close> of a key that is not contained returns \<open>-1\<close> and leaves the
  object as it was.
\<close>

theorem om_remove_key:
  assumes "set (om_keys obj) = dom (qmap obj)" and "distinct (om_keys obj)"
  shows "(om_contains obj key \<longrightarrow>
            fst (om_remove key obj) = om_keyOrder obj key \<and>
            qlist_valid (om_keys obj) (fst (om_remove key obj)) \<and>
            om_keys obj ! nat (fst (om_remove key obj)) = key \<and>
            om_keys (snd (om_remove key obj)) =
              take (nat (fst (om_remove key obj))) (om_keys obj) @
              drop (Suc (nat (fst (om_remove key obj)))) (om_keys obj) \<and>
            \<not> om_contains (snd (om_remove key obj)) key \<and>
            qmap (snd (om_remove key obj)) = (qmap obj)(key := None)) \<and>
         (\<not> om_contains obj key \<longrightarrow> om_remove key obj = (-1, obj))"
proof (cases "key \<in> set (qlist obj)")
  case True
  from assms have wf: "om_wf obj" by (simp add: om_wf_def om_keys_def)
  note p = qlist_indexOf_present [OF True]
  have d: "distinct (qlist obj)" using assms(2) by (simp add: om_keys_def)
  note r = qlist_removeAt_distinct [OF d p(1)]
  have "key \<notin> set (qlist_removeAt (qlist obj) (qlist_indexOf (qlist obj) key))"
    using r(1) p(2) by simp
  then show ?thesis using True p
    by (simp add: om_contains_def qlist_contains_def om_remove_def Let_def om_keyOrder_def
        om_keys_def qlist_removeAt_def qmap_remove_def)
next
  case False
  from assms have wf: "om_wf obj" by (simp add: om_wf_def om_keys_def)
  show ?thesis using False om_remove_absent [OF wf False]
    by (simp add: om_contains_def qlist_contains_def)
qed

theorem om_remove_key_witness:
  "set (om_keys (om_insert ''c'' (3::int) (om_insert ''a'' 1 (om_insert ''b'' 2 om_empty))))
     = dom (qmap (om_insert ''c'' (3::int) (om_insert ''a'' 1 (om_insert ''b'' 2 om_empty)))) \<and>
   distinct (om_keys (om_insert ''c'' (3::int) (om_insert ''a'' 1 (om_insert ''b'' 2 om_empty)))) \<and>
   om_contains (om_insert ''c'' (3::int) (om_insert ''a'' 1 (om_insert ''b'' 2 om_empty))) ''a'' \<and>
   fst (om_remove ''a'' (om_insert ''c'' (3::int) (om_insert ''a'' 1 (om_insert ''b'' 2 om_empty)))) = 1 \<and>
   om_keys (snd (om_remove ''a''
     (om_insert ''c'' (3::int) (om_insert ''a'' 1 (om_insert ''b'' 2 om_empty))))) = [''b'', ''c''] \<and>
   \<not> om_contains (om_insert ''c'' (3::int) (om_insert ''a'' 1 (om_insert ''b'' 2 om_empty))) ''z'' \<and>
   om_remove ''z'' (om_insert ''c'' (3::int) (om_insert ''a'' 1 (om_insert ''b'' 2 om_empty)))
     = (-1, om_insert ''c'' (3::int) (om_insert ''a'' 1 (om_insert ''b'' 2 om_empty)))"
proof -
  let ?obj = "om_insert ''c'' (3::int) (om_insert ''a'' 1 (om_insert ''b'' 2 om_empty))"
  have k: "om_keys ?obj = [''b'', ''a'', ''c'']"
    by (simp add: om_keys_def om_insert_def om_empty_def qlist_contains_def qlist_append_def)
  have h1: "set (om_keys ?obj) = dom (qmap ?obj)"
    by (auto simp: om_keys_def om_insert_def om_empty_def qlist_contains_def qlist_append_def
        qmap_insert_def)
  have h2: "distinct (om_keys ?obj)" by (simp add: k)
  have c: "om_contains ?obj ''a''" "\<not> om_contains ?obj ''z''"
    using k by (simp_all add: om_contains_def om_keys_def qlist_contains_def)
  have o: "om_keyOrder ?obj ''a'' = 1"
    using k by (simp add: om_keyOrder_def qlist_indexOf_def)
  show ?thesis
    using h1 h2 c k o om_remove_key [OF h1 h2, of "''a''"] om_remove_key [OF h1 h2, of "''z''"]
    by simp
qed


section \<open>Positional read\<close>

lemma om_value_at_valid:
  "qlist_valid (om_keys obj) index \<Longrightarrow>
     om_value_at dk dv obj index = om_value dv obj (om_keys obj ! nat index)"
  by (simp add: om_value_at_def om_value_def om_keys_def qlist_value_def)

lemma om_value_at_invalid:
  "\<not> qlist_valid (om_keys obj) index \<Longrightarrow>
     om_value_at dk dv obj index = om_value dv obj dk"
  by (simp add: om_value_at_def om_value_def om_keys_def qlist_value_def)

lemma om_value_at_invalid_default:
  "\<not> qlist_valid (om_keys obj) index \<Longrightarrow> qmap obj dk = None \<Longrightarrow>
     om_value_at dk dv obj index = dv"
  by (simp add: om_value_at_def om_keys_def qlist_value_def qmap_value_def)

text \<open>
  Claim C9 says that \<^verbatim>\<open>value(index)\<close> returns a default-constructed \<^verbatim>\<open>T()\<close> for every
  invalid index. \<^verbatim>\<open>value(index)\<close> looks up the key \<^verbatim>\<open>QList::value(index)\<close>, which is
  \<^verbatim>\<open>Key()\<close> at an invalid index: in an \<^verbatim>\<open>OrderedQMap<QString,int>\<close> that stores the
  empty string with value 5, \<^verbatim>\<open>value(3)\<close> is 5 and not \<^verbatim>\<open>int()\<close>, which is 0.
\<close>

theorem om_value_at_default_key_stored:
  "\<not> qlist_valid (om_keys (om_insert '''' (5::int) om_empty)) 3 \<and>
   om_value_at '''' 0 (om_insert '''' (5::int) om_empty) 3 = 5"
  by (simp add: om_value_at_def om_keys_def om_insert_def om_empty_def qlist_valid_def
      qlist_value_def qlist_contains_def qlist_append_def qmap_insert_def qmap_value_def)


section \<open>OrderedQMultiMap: insert, remove, replace\<close>

text \<open>
  Claim C6. \<^verbatim>\<open>insert(key, value)\<close> of the multi-map appends \<open>key\<close> to the order list
  whether or not the key is there already, and puts \<open>value\<close> in front of the key's
  values. Two inserts of one key append the key twice (two more occurrences in the order
  list), and both values are among \<^verbatim>\<open>values(key)\<close>.
\<close>

theorem mm_insert_appends:
  "mm_keys (mm_insert key val obj) = mm_keys obj @ [key] \<and>
   mm_values (mm_insert key val obj) key = val # mm_values obj key \<and>
   mm_keys (mm_insert key v2 (mm_insert key v1 obj)) = mm_keys obj @ [key, key] \<and>
   mm_values (mm_insert key v2 (mm_insert key v1 obj)) key = v2 # v1 # mm_values obj key \<and>
   count_list (mm_keys (mm_insert key v2 (mm_insert key v1 obj))) key
     = count_list (mm_keys obj) key + 2"
  by (simp add: mm_keys_def mm_values_def mm_insert_def qlist_append_def qmultimap_insert_def
      qmultimap_values_def)

text \<open>
  Claim C7. \<^verbatim>\<open>remove(key)\<close> of the multi-map returns the number of values the key had
  (0 for a key without values), leaves the key no value in the store and no occurrence in
  the order list (the other keys of the list stay, in order). After \<^verbatim>\<open>insert(key, v1)\<close>
  and \<^verbatim>\<open>insert(key, v2)\<close> into an empty multi-map the order list is \<open>[key, key]\<close>, and
  \<^verbatim>\<open>remove(key)\<close> returns 2 and leaves the empty multi-map.
\<close>

theorem mm_remove_all:
  fixes obj :: "('k, 'v) OrderedQMultiMap" and v1 v2 :: 'v
  shows
  "fst (mm_remove key obj) = int (length (mm_values obj key)) \<and>
   (mm_values obj key = [] \<longrightarrow> fst (mm_remove key obj) = 0) \<and>
   mm_values (snd (mm_remove key obj)) key = [] \<and>
   mm_keys (snd (mm_remove key obj)) = filter (\<lambda>k. k \<noteq> key) (mm_keys obj) \<and>
   \<not> mm_contains (snd (mm_remove key obj)) key \<and>
   mm_keys (mm_insert key v2 (mm_insert key v1 mm_empty)) = [key, key] \<and>
   mm_remove key (mm_insert key v2 (mm_insert key v1 mm_empty)) = (2, mm_empty)"
  by (simp add: mm_remove_def mm_values_def mm_keys_def mm_contains_def mm_insert_def
      mm_empty_def qlist_removeAll_def qlist_contains_def qlist_append_def
      qmultimap_remove_def qmultimap_values_def qmultimap_insert_def qmultimap_empty_def
      fun_eq_iff)

theorem mm_remove_all_witness:
  "mm_values (mm_empty :: (string, int) OrderedQMultiMap) ''y'' = [] \<and>
   fst (mm_remove ''y'' (mm_empty :: (string, int) OrderedQMultiMap)) = 0 \<and>
   mm_keys (mm_insert ''x'' (2::int) (mm_insert ''x'' 1 mm_empty)) = [''x'', ''x''] \<and>
   mm_remove ''x'' (mm_insert ''x'' (2::int) (mm_insert ''x'' 1 mm_empty)) = (2, mm_empty)"
proof -
  have h: "mm_values (mm_empty :: (string, int) OrderedQMultiMap) ''y'' = []"
    by (simp add: mm_values_def mm_empty_def qmultimap_values_def qmultimap_empty_def)
  show ?thesis
    using h mm_remove_all [of "''y''" "mm_empty :: (string, int) OrderedQMultiMap" 0 0]
      mm_remove_all [of "''x''" "mm_empty :: (string, int) OrderedQMultiMap" 2 1]
    by simp
qed

text \<open>
  Claim C8 says that \<^verbatim>\<open>replace(key, value)\<close> replaces the existing values of the key.
  With the values 2 and 1 stored for a key (2 the more recent), \<^verbatim>\<open>replace(key, 9)\<close>
  leaves 9 and 1: the older value is still stored.
\<close>

theorem mm_replace_older_values_stay:
  "mm_values (mm_insert ''x'' (2::int) (mm_insert ''x'' 1 mm_empty)) ''x'' = [2, 1] \<and>
   mm_values (mm_replace ''x'' 9 (mm_insert ''x'' (2::int) (mm_insert ''x'' 1 mm_empty))) ''x''
     = [9, 1]"
  by (simp add: mm_values_def mm_replace_def mm_insert_def mm_empty_def qlist_contains_def
      qlist_append_def qmultimap_replace_def qmultimap_insert_def qmultimap_values_def
      qmultimap_empty_def)

text \<open>
  Claim C8, amended. \<^verbatim>\<open>replace(key, value)\<close> makes \<open>value\<close> the most recently inserted
  value of the key, in place of the one that was (the key's older values, and every other
  key's values, stay), so that \<^verbatim>\<open>value(key)\<close> is \<open>value\<close>; the order list is unchanged
  when it already contains the key, and has the key appended otherwise.
\<close>

theorem mm_replace_most_recent:
  "mm_value dv (mm_replace key val obj) key = val \<and>
   mm_values (mm_replace key val obj) key = val # tl (mm_values obj key) \<and>
   (\<forall>k. k \<noteq> key \<longrightarrow> mm_values (mm_replace key val obj) k = mm_values obj k) \<and>
   (mm_contains obj key \<longrightarrow> mm_keys (mm_replace key val obj) = mm_keys obj) \<and>
   (\<not> mm_contains obj key \<longrightarrow> mm_keys (mm_replace key val obj) = mm_keys obj @ [key])"
  by (simp add: mm_value_def mm_values_def mm_keys_def mm_contains_def mm_replace_def
      qlist_append_def qmultimap_replace_def qmultimap_value_def qmultimap_values_def
      split: list.splits)

theorem mm_replace_most_recent_witness:
  "mm_contains (mm_insert ''x'' (2::int) (mm_insert ''x'' 1 mm_empty)) ''x'' \<and>
   mm_keys (mm_replace ''x'' 9 (mm_insert ''x'' (2::int) (mm_insert ''x'' 1 mm_empty)))
     = [''x'', ''x''] \<and>
   mm_value 0 (mm_replace ''x'' 9 (mm_insert ''x'' (2::int) (mm_insert ''x'' 1 mm_empty))) ''x''
     = 9 \<and>
   \<not> mm_contains (mm_insert ''x'' (2::int) (mm_insert ''x'' 1 mm_empty)) ''y'' \<and>
   mm_keys (mm_replace ''y'' 9 (mm_insert ''x'' (2::int) (mm_insert ''x'' 1 mm_empty)))
     = [''x'', ''x'', ''y''] \<and>
   mm_values (mm_replace ''y'' 9 (mm_insert ''x'' (2::int) (mm_insert ''x'' 1 mm_empty))) ''x''
     = [2, 1]"
proof -
  let ?obj = "mm_insert ''x'' (2::int) (mm_insert ''x'' 1 mm_empty)"
  have k: "mm_keys ?obj = [''x'', ''x'']"
    by (simp add: mm_keys_def mm_insert_def mm_empty_def qlist_append_def)
  have c: "mm_contains ?obj ''x''" "\<not> mm_contains ?obj ''y''"
    using k by (simp_all add: mm_contains_def mm_keys_def qlist_contains_def)
  have v: "mm_values ?obj ''x'' = [2, 1]"
    by (simp add: mm_values_def mm_insert_def mm_empty_def qmultimap_insert_def
        qmultimap_values_def qmultimap_empty_def)
  show ?thesis
    using c k v mm_replace_most_recent [of 0 "''x''" 9 ?obj]
      mm_replace_most_recent [of 0 "''y''" 9 ?obj]
    by simp
qed


section \<open>The stream round trip of OrderedQMultiMap\<close>

lemma mm_read_keys: "mm_keys (fold (\<lambda>k ob. mm_insert k (g k) ob) ks obj) = mm_keys obj @ ks"
  by (induction ks arbitrary: obj) (simp_all add: mm_keys_def mm_insert_def qlist_append_def)

lemma mm_round_trip_keys: "mm_keys (mm_read dv (mm_write dv obj) mm_empty) = mm_keys obj"
  using mm_read_keys [of _ "mm_keys obj" mm_empty]
  by (simp add: mm_read_def mm_write_def) (simp add: mm_keys_def mm_empty_def)

text \<open>
  Claim C3 says that writing a multi-map and reading it back gives every key its sequence
  of values back. After \<^verbatim>\<open>insert("x", 1)\<close> and \<^verbatim>\<open>insert("x", 2)\<close> the key has the
  values 2, 1; the write loop stores \<^verbatim>\<open>obj.value(k)\<close>, the most recent value, once per
  occurrence of the key, and the read loop inserts \<^verbatim>\<open>tmpMap.value(k)\<close> once per
  occurrence: the key list comes back as it was, the values come back as 2, 2.
\<close>

theorem mm_round_trip_loses_values:
  "mm_values (mm_insert ''x'' (2::int) (mm_insert ''x'' 1 mm_empty)) ''x'' = [2, 1] \<and>
   mm_keys (mm_read 0 (mm_write 0 (mm_insert ''x'' (2::int) (mm_insert ''x'' 1 mm_empty)))
     mm_empty) = [''x'', ''x''] \<and>
   mm_values (mm_read 0 (mm_write 0 (mm_insert ''x'' (2::int) (mm_insert ''x'' 1 mm_empty)))
     mm_empty) ''x'' = [2, 2]"
  by (simp add: mm_values_def mm_keys_def mm_value_def mm_read_def mm_write_def mm_insert_def
      mm_empty_def qlist_append_def qmultimap_insert_def qmultimap_value_def
      qmultimap_values_def qmultimap_empty_def)

end
